theory Spec2Isabelle
  imports Main "HOL-Library.AList"
begin

section \<open>Values, maps and the store\<close>

text \<open>
  A Go \<^verbatim>\<open>interface{}\<close> value, as far as package \<^verbatim>\<open>logger\<close> looks at it: the nil
  interface, a string, a number, a value of type \<^verbatim>\<open>map[string]interface{}\<close> (a reference
  to a map, or the typed nil map), or a value of some other type.
\<close>

datatype iface = NilValue | Str string | Num int | MapVal "nat option" | Other nat

text \<open>
  The contents of one map object. Keys are looked up with \<^const>\<open>map_of\<close> and written with
  \<^const>\<open>AList.update\<close>, so a key is visible once, as in a Go map.
\<close>

type_synonym gomap = "(string \<times> iface) list"

text \<open>The only run-time panic the package can raise: assignment to an entry in a nil map.\<close>

datatype panic = AssignNilMap

subsection \<open>The logging library's data\<close>

datatype level = PanicLevel | FatalLevel | ErrorLevel | WarnLevel | InfoLevel | DebugLevel | TraceLevel

text \<open>A formatter; the text formatter carries its \<^verbatim>\<open>FullTimestamp\<close> flag.\<close>

datatype formatter = JSONFormatter | TextFormatter bool

record logrus_Logger =
  LoggerLevel :: level
  Formatter :: formatter

record Entry =
  Logger :: logrus_Logger
  Data :: gomap

text \<open>\<^verbatim>\<open>logrus.New()\<close>: the info level and a text formatter with default settings.\<close>

definition logrus_New :: logrus_Logger where
  "logrus_New = \<lparr>LoggerLevel = InfoLevel, Formatter = TextFormatter False\<rparr>"

text \<open>
  Modelled from the spec: the entry constructors of the logging library, which is not part
  of the repository. \<^verbatim>\<open>logrus.NewEntry(logger)\<close> is an entry bound to the logger with no
  pre-set fields; \<^verbatim>\<open>logger.WithFields(fields)\<close> is an entry bound to the logger and
  pre-populated with every key/value of \<^verbatim>\<open>fields\<close>.
\<close>

definition NewEntry :: "logrus_Logger \<Rightarrow> Entry" where
  "NewEntry l = \<lparr>Logger = l, Data = []\<rparr>"

definition WithFields :: "logrus_Logger \<Rightarrow> gomap \<Rightarrow> Entry" where
  "WithFields l flds = \<lparr>Logger = l, Data = flds\<rparr>"

subsection \<open>Program state\<close>

record logCtxBuilder =
  ctx :: "nat option"

text \<open>
  Maps and builders are reference objects: the state holds the contents of every map object
  and of every builder object by address, the next free addresses, and the package variable
  \<^verbatim>\<open>logger\<close>. A map reference is \<open>Some a\<close>, the nil map is \<open>None\<close>.
\<close>

record state =
  maps :: "nat \<Rightarrow> gomap"
  next_map :: nat
  builders :: "nat \<Rightarrow> logCtxBuilder"
  next_builder :: nat
  logger :: logrus_Logger

text \<open>Reading \<^verbatim>\<open>m[k]\<close>: a nil map reads as empty.\<close>

fun mapaccess :: "nat option \<Rightarrow> state \<Rightarrow> string \<Rightarrow> iface option" where
  "mapaccess None s k = None"
| "mapaccess (Some a) s k = map_of (maps s a) k"

text \<open>The keys a \<^verbatim>\<open>range\<close> over the map visits; none for a nil map.\<close>

fun mapkeys :: "nat option \<Rightarrow> state \<Rightarrow> string list" where
  "mapkeys None s = []"
| "mapkeys (Some a) s = map fst (maps s a)"

text \<open>Writing \<^verbatim>\<open>m[k] = v\<close>: panics on the nil map, updates the map object in place otherwise.\<close>

fun mapassign :: "nat option \<Rightarrow> string \<Rightarrow> iface \<Rightarrow> state \<Rightarrow> (panic + unit) \<times> state" where
  "mapassign None k v s = (Inl AssignNilMap, s)"
| "mapassign (Some a) k v s = (Inr (), s\<lparr>maps := (maps s)(a := AList.update k v (maps s a))\<rparr>)"

text \<open>\<^verbatim>\<open>make(map[string]interface{})\<close>: a new, empty map object.\<close>

definition makemap :: "state \<Rightarrow> nat \<times> state" where
  "makemap s = (next_map s, s\<lparr>maps := (maps s)(next_map s := []), next_map := Suc (next_map s)\<rparr>)"

section \<open>Contexts\<close>

text \<open>
  A \<^verbatim>\<open>context.Context\<close> is a chain of \<^verbatim>\<open>WithValue\<close> nodes over a root; \<^verbatim>\<open>ctxKey\<close> is the
  package's private key, every other key is an \<open>otherKey\<close>.
\<close>

datatype ckey = ctxKey | otherKey nat

datatype "context" = Background | WithValue "context" ckey iface

fun Value :: "context \<Rightarrow> ckey \<Rightarrow> iface" where
  "Value Background key = NilValue"
| "Value (WithValue parent k val) key = (if k = key then val else Value parent key)"

text \<open>The type assertion \<^verbatim>\<open>v.(map[string]interface{})\<close> in its two-result form.\<close>

fun assert_map :: "iface \<Rightarrow> nat option \<times> bool" where
  "assert_map (MapVal m) = (m, True)"
| "assert_map NilValue = (None, False)"
| "assert_map (Str x) = (None, False)"
| "assert_map (Num n) = (None, False)"
| "assert_map (Other n) = (None, False)"

section \<open>Logger configuration\<close>

text \<open>
  The constants of the package (the reserved field names).
\<close>

definition correlationIdKey :: string where "correlationIdKey = ''correlation-id''"
definition scrapeIdFullKey :: string where "scrapeIdFullKey = ''scrape-id-full''"
definition scrapeIdShortKey :: string where "scrapeIdShortKey = ''scrape-id-short''"
definition providerKey :: string where "providerKey = ''provider''"
definition serviceKey :: string where "serviceKey = ''service''"
definition regionKey :: string where "regionKey = ''region''"

record Config =
  Level :: string
  Format :: string

text \<open>
  \<^verbatim>\<open>newLogger\<close>. The library's \<^verbatim>\<open>logrus.ParseLevel\<close> is a parameter: it returns the level,
  or \<open>None\<close> where the library returns an error.
\<close>

definition newLogger :: "(string \<Rightarrow> level option) \<Rightarrow> Config \<Rightarrow> logrus_Logger" where
  "newLogger ParseLevel config =
     (let logger0 = logrus_New;
          lvl = (case ParseLevel (Level config) of None \<Rightarrow> InfoLevel | Some l \<Rightarrow> l);
          logger1 = logger0\<lparr>LoggerLevel := lvl\<rparr>
      in if Format config = ''json''
         then logger1\<lparr>Formatter := JSONFormatter\<rparr>
         else logger1\<lparr>Formatter := TextFormatter True\<rparr>)"

definition InitLogger :: "(string \<Rightarrow> level option) \<Rightarrow> string \<Rightarrow> string \<Rightarrow> state \<Rightarrow> state" where
  "InitLogger ParseLevel lvl format s =
     s\<lparr>logger := newLogger ParseLevel \<lparr>Level = lvl, Format = format\<rparr>\<rparr>"

text \<open>The level names the library recognises, in their lower-case spelling.\<close>

definition level_names :: "string \<Rightarrow> level option" where
  "level_names = map_of
     [(''panic'', PanicLevel), (''fatal'', FatalLevel), (''error'', ErrorLevel),
      (''warn'', WarnLevel), (''warning'', WarnLevel), (''info'', InfoLevel),
      (''debug'', DebugLevel), (''trace'', TraceLevel)]"

section \<open>Extract and ToContext\<close>

text \<open>
  The loop of \<^verbatim>\<open>Extract\<close>: \<^verbatim>\<open>for k, v := range fds { fields[k] = v }\<close>, where \<^verbatim>\<open>fields\<close>
  is a map created in the function and reachable from nowhere else, so it is a value here.
\<close>

fun copy_fields :: "nat option \<Rightarrow> string list \<Rightarrow> state \<Rightarrow> gomap \<Rightarrow> gomap" where
  "copy_fields fds [] s flds = flds"
| "copy_fields fds (k # ks) s flds =
     (case mapaccess fds s k of
        None \<Rightarrow> copy_fields fds ks s flds
      | Some v \<Rightarrow> copy_fields fds ks s (AList.update k v flds))"

definition Extract :: "context \<Rightarrow> state \<Rightarrow> Entry" where
  "Extract c s =
     (case assert_map (Value c ctxKey) of (fds, ok) \<Rightarrow>
        if \<not> ok \<or> fds = None then NewEntry (logger s)
        else WithFields (logger s) (copy_fields fds (mapkeys fds s) s []))"

text \<open>
  The loop of \<^verbatim>\<open>ToContext\<close>: \<^verbatim>\<open>for k, v := range parentVals { fields[k] = v }\<close>. Both maps
  are objects of the store and may be the same object; the write panics when \<^verbatim>\<open>fields\<close> is
  the nil map.
\<close>

fun copy_parent :: "nat option \<Rightarrow> nat option \<Rightarrow> string list \<Rightarrow> state \<Rightarrow> (panic + unit) \<times> state" where
  "copy_parent parentVals flds [] s = (Inr (), s)"
| "copy_parent parentVals flds (k # ks) s =
     (case mapaccess parentVals s k of
        None \<Rightarrow> copy_parent parentVals flds ks s
      | Some v \<Rightarrow>
          (case mapassign flds k v s of
             (Inl e, s') \<Rightarrow> (Inl e, s')
           | (Inr u, s') \<Rightarrow> copy_parent parentVals flds ks s'))"

definition ToContext :: "context \<Rightarrow> nat option \<Rightarrow> state \<Rightarrow> (panic + context) \<times> state" where
  "ToContext c flds s =
     (case assert_map (Value c ctxKey) of (parentVals, ok) \<Rightarrow>
        if parentVals = None \<and> ok then (Inr (WithValue c ctxKey (MapVal flds)), s)
        else if ok then
          (case copy_parent parentVals flds (mapkeys parentVals s) s of
             (Inl e, s') \<Rightarrow> (Inl e, s')
           | (Inr u, s') \<Rightarrow> (Inr (WithValue c ctxKey (MapVal flds)), s'))
        else (Inr (WithValue c ctxKey (MapVal flds)), s))"

section \<open>The context builder\<close>

text \<open>
  A \<^verbatim>\<open>*logCtxBuilder\<close> is the address of a builder object. \<^verbatim>\<open>init\<close> gives the builder a
  new map when it has none.
\<close>

definition init :: "nat \<Rightarrow> state \<Rightarrow> state" where
  "init cb s =
     (if ctx (builders s cb) = None
      then (case makemap s of (m, s') \<Rightarrow>
              s'\<lparr>builders := (builders s')(cb := (builders s' cb)\<lparr>ctx := Some m\<rparr>)\<rparr>)
      else s)"

definition NewLogCtxBuilder :: "state \<Rightarrow> nat \<times> state" where
  "NewLogCtxBuilder s =
     (let lCtx = next_builder s;
          s' = s\<lparr>builders := (builders s)(lCtx := \<lparr>ctx = None\<rparr>), next_builder := Suc lCtx\<rparr>
      in (lCtx, init lCtx s'))"

definition WithField :: "nat \<Rightarrow> string \<Rightarrow> iface \<Rightarrow> state \<Rightarrow> (panic + nat) \<times> state" where
  "WithField cb field val s =
     (let s1 = init cb s
      in case mapassign (ctx (builders s1 cb)) field val s1 of
           (Inl e, s2) \<Rightarrow> (Inl e, s2)
         | (Inr u, s2) \<Rightarrow> (Inr cb, s2))"

definition WithProvider :: "nat \<Rightarrow> string \<Rightarrow> state \<Rightarrow> (panic + nat) \<times> state" where
  "WithProvider cb provider s = WithField cb providerKey (Str provider) s"

definition WithService :: "nat \<Rightarrow> string \<Rightarrow> state \<Rightarrow> (panic + nat) \<times> state" where
  "WithService cb service s = WithField cb serviceKey (Str service) s"

definition WithRegion :: "nat \<Rightarrow> string \<Rightarrow> state \<Rightarrow> (panic + nat) \<times> state" where
  "WithRegion cb region s = WithField cb regionKey (Str region) s"

definition WithCorrelationId :: "nat \<Rightarrow> string \<Rightarrow> state \<Rightarrow> (panic + nat) \<times> state" where
  "WithCorrelationId cb cid s = WithField cb correlationIdKey (Str cid) s"

definition WithScrapeIdShort :: "nat \<Rightarrow> iface \<Rightarrow> state \<Rightarrow> (panic + nat) \<times> state" where
  "WithScrapeIdShort cb sid s = WithField cb scrapeIdShortKey sid s"

definition WithScrapeIdFull :: "nat \<Rightarrow> iface \<Rightarrow> state \<Rightarrow> (panic + nat) \<times> state" where
  "WithScrapeIdFull cb sid s = WithField cb scrapeIdFullKey sid s"

definition Build :: "nat \<Rightarrow> state \<Rightarrow> nat option \<times> state" where
  "Build cb s = (let s1 = init cb s in (ctx (builders s1 cb), s1))"

section \<open>A concrete store\<close>

text \<open>
  A store with two map objects: map \<open>0\<close> is \<^verbatim>\<open>{correlation-id: "xyz", region: "eu"}\<close>, map
  \<open>1\<close> is \<^verbatim>\<open>{correlation-id: "abc"}\<close>; no builder has been created, and the logger is the
  default one.
\<close>

definition demo_state :: state where
  "demo_state =
     \<lparr>maps = (\<lambda>a. [])(0 := [(''correlation-id'', Str ''xyz''), (''region'', Str ''eu'')],
                         1 := [(''correlation-id'', Str ''abc'')]),
      next_map = 2,
      builders = (\<lambda>b. \<lparr>ctx = None\<rparr>),
      next_builder = 0,
      logger = logrus_New\<rparr>"

text \<open>The context that carries map \<open>0\<close>, and the one made from it by attaching map \<open>1\<close>.\<close>

definition demo_parent :: "context" where
  "demo_parent = WithValue Background ctxKey (MapVal (Some 0))"

definition demo_child :: "context" where
  "demo_child = WithValue demo_parent ctxKey (MapVal (Some 1))"

text \<open>The store after map \<open>0\<close> has been copied over map \<open>1\<close>.\<close>

definition demo_merged :: state where
  "demo_merged = demo_state\<lparr>maps := (maps demo_state)
      (1 := [(''correlation-id'', Str ''xyz''), (''region'', Str ''eu'')])\<rparr>"

section \<open>The two copying loops\<close>

lemma copy_fields_map_of:
  "map_of (copy_fields fds ks s acc) k =
     (if k \<in> set ks \<and> mapaccess fds s k \<noteq> None then mapaccess fds s k else map_of acc k)"
  by (induction ks arbitrary: acc) (auto simp: update_conv' split: option.splits)

lemma mapaccess_keys: "mapaccess r s k \<noteq> None \<Longrightarrow> k \<in> set (mapkeys r s)"
  by (cases r) (auto simp: map_of_eq_None_iff)

lemma copy_fields_all: "map_of (copy_fields fds (mapkeys fds s) s []) = mapaccess fds s"
proof
  fix k
  show "map_of (copy_fields fds (mapkeys fds s) s []) k = mapaccess fds s k"
    using mapaccess_keys[of fds s k] by (cases "mapaccess fds s k") (simp_all add: copy_fields_map_of)
qed

lemma copy_fields_cong:
  "mapaccess fds s = mapaccess fds s' \<Longrightarrow> copy_fields fds ks s acc = copy_fields fds ks s' acc"
  by (induction ks arbitrary: acc) (auto split: option.splits)

lemma copy_parent_nil: "snd (copy_parent p None ks s) = s"
  by (induction ks) (auto split: option.splits)

lemma copy_parent_alias: "copy_parent (Some f) (Some f) ks s = (Inr (), s)"
  by (induction ks) (auto split: option.splits simp: update_triv)

lemma copy_parent_Some:
  "\<exists>m. copy_parent p (Some f) ks s = (Inr (), s\<lparr>maps := (maps s)(f := m)\<rparr>) \<and>
       map_of m = (\<lambda>k. if k \<in> set ks \<and> mapaccess p s k \<noteq> None then mapaccess p s k
                        else map_of (maps s f) k)"
proof (induction ks arbitrary: s)
  case Nil
  show ?case by (intro exI[of _ "maps s f"]) simp
next
  case (Cons k ks)
  show ?case
  proof (cases "mapaccess p s k")
    case None
    with Cons.IH[of s] show ?thesis by (auto simp: fun_eq_iff)
  next
    case (Some v)
    let ?s1 = "s\<lparr>maps := (maps s)(f := AList.update k v (maps s f))\<rparr>"
    have acc: "mapaccess p ?s1 = mapaccess p s"
      using Some by (cases p) (auto simp: fun_eq_iff update_conv')
    from Cons.IH[of ?s1] obtain m where
      m: "copy_parent p (Some f) ks ?s1 = (Inr (), ?s1\<lparr>maps := (maps ?s1)(f := m)\<rparr>)"
         "map_of m = (\<lambda>k. if k \<in> set ks \<and> mapaccess p ?s1 k \<noteq> None then mapaccess p ?s1 k
                        else map_of (maps ?s1 f) k)"
      by blast
    show ?thesis
      using Some m acc by (intro exI[of _ m]) (auto simp: fun_eq_iff update_conv')
  qed
qed

lemma mapaccess_nil: "mapaccess None s = Map.empty"
  by (rule ext) simp

lemma copy_parent_all:
  "\<exists>m. copy_parent p (Some f) (mapkeys p s) s = (Inr (), s\<lparr>maps := (maps s)(f := m)\<rparr>) \<and>
       map_of m = map_of (maps s f) ++ mapaccess p s"
proof -
  obtain m where m: "copy_parent p (Some f) (mapkeys p s) s = (Inr (), s\<lparr>maps := (maps s)(f := m)\<rparr>)"
    "map_of m = (\<lambda>k. if k \<in> set (mapkeys p s) \<and> mapaccess p s k \<noteq> None then mapaccess p s k
                        else map_of (maps s f) k)"
    using copy_parent_Some[of p f "mapkeys p s" s] by blast
  have "map_of m k = (map_of (maps s f) ++ mapaccess p s) k" for k
    using mapaccess_keys[of p s k] by (cases "mapaccess p s k") (simp_all add: m(2) map_add_def)
  then show ?thesis using m(1) by blast
qed

lemma Extract_fields: "map_of (Data (Extract c s)) = mapaccess (fst (assert_map (Value c ctxKey))) s"
  by (cases "Value c ctxKey")
     (auto simp: Extract_def NewEntry_def WithFields_def copy_fields_all fun_eq_iff)

lemma Extract_logger: "Logger (Extract c s) = logger s"
  by (auto simp: Extract_def NewEntry_def WithFields_def split: prod.splits)

lemma ToContext_Some:
  "\<exists>m. ToContext c (Some f) s =
         (Inr (WithValue c ctxKey (MapVal (Some f))), s\<lparr>maps := (maps s)(f := m)\<rparr>) \<and>
       map_of m = map_of (maps s f) ++ mapaccess (fst (assert_map (Value c ctxKey))) s"
proof (cases "assert_map (Value c ctxKey)")
  case (Pair parentVals ok)
  show ?thesis
  proof (cases "ok \<and> parentVals \<noteq> None")
    case True
    then obtain p where p: "parentVals = Some p" by auto
    from copy_parent_all[of parentVals f s] obtain m where
      "copy_parent parentVals (Some f) (mapkeys parentVals s) s = (Inr (), s\<lparr>maps := (maps s)(f := m)\<rparr>)"
      "map_of m = map_of (maps s f) ++ mapaccess parentVals s" by blast
    with Pair True p show ?thesis by (intro exI[of _ m]) (simp add: ToContext_def)
  next
    case False
    have "parentVals = None"
      using False Pair by (cases "Value c ctxKey") auto
    with Pair False show ?thesis
      by (intro exI[of _ "maps s f"]) (auto simp: ToContext_def mapaccess_nil)
  qed
qed

lemma ToContext_state_nil: "snd (ToContext c None s) = s"
  using copy_parent_nil[of "fst (assert_map (Value c ctxKey))" "mapkeys (fst (assert_map (Value c ctxKey))) s" s]
  by (auto simp: ToContext_def split: prod.splits sum.splits)

lemma Extract_cong:
  assumes "logger s' = logger s"
    and "\<And>p. Value c ctxKey = MapVal (Some p) \<Longrightarrow> maps s' p = maps s p"
  shows "Extract c s' = Extract c s"
proof (cases "Value c ctxKey")
  case (MapVal r)
  show ?thesis
  proof (cases r)
    case None
    with MapVal assms(1) show ?thesis by (simp add: Extract_def)
  next
    case (Some p)
    have "mapaccess (Some p) s' = mapaccess (Some p) s"
      using assms(2)[of p] MapVal Some by (simp add: fun_eq_iff)
    from copy_fields_cong[OF this] assms MapVal Some show ?thesis
      by (simp add: Extract_def)
  qed
qed (use assms(1) in \<open>simp_all add: Extract_def\<close>)

lemma ToContext_parent_unchanged: "Extract c (snd (ToContext c flds s)) = Extract c s"
proof (cases flds)
  case None
  then show ?thesis by (simp add: ToContext_state_nil)
next
  case (Some f)
  show ?thesis
  proof (rule Extract_cong)
    show "logger (snd (ToContext c flds s)) = logger s"
      using ToContext_Some[of c f s] Some by auto
  next
    fix p assume p: "Value c ctxKey = MapVal (Some p)"
    show "maps (snd (ToContext c flds s)) p = maps s p"
    proof (cases "p = f")
      case True
      with p Some show ?thesis by (simp add: ToContext_def copy_parent_alias)
    next
      case False
      with ToContext_Some[of c f s] Some show ?thesis by auto
    qed
  qed
qed


lemma ToContext_parent_map:
  assumes "Value c ctxKey = MapVal (Some p)"
  shows "maps (snd (ToContext c flds s)) p = maps s p"
proof (cases flds)
  case None
  then show ?thesis by (simp add: ToContext_state_nil)
next
  case (Some f)
  show ?thesis
  proof (cases "p = f")
    case True
    with assms Some show ?thesis by (simp add: ToContext_def copy_parent_alias)
  next
    case False
    with ToContext_Some[of c f s] Some show ?thesis by auto
  qed
qed

lemma ToContext_no_parent_map:
  assumes "\<forall>p. Value c ctxKey \<noteq> MapVal (Some p)"
  shows "ToContext c flds s = (Inr (WithValue c ctxKey (MapVal flds)), s)"
proof (cases "Value c ctxKey")
  case (MapVal r)
  with assms have "r = None" by (cases r) auto
  with MapVal show ?thesis by (simp add: ToContext_def)
qed (simp_all add: ToContext_def)

text \<open>
  Attaching a non-nil empty map to any context gives a context whose extracted entry has the
  fields and the logger of the parent's.
\<close>

lemma ToContext_empty_map_identity:
  assumes "maps s f = []"
  shows "\<exists>c' s'. ToContext c (Some f) s = (Inr c', s') \<and>
                 map_of (Data (Extract c' s')) = map_of (Data (Extract c s)) \<and>
                 Logger (Extract c' s') = Logger (Extract c s)"
proof -
  obtain m where m:
    "ToContext c (Some f) s = (Inr (WithValue c ctxKey (MapVal (Some f))), s\<lparr>maps := (maps s)(f := m)\<rparr>)"
    "map_of m = map_of (maps s f) ++ mapaccess (fst (assert_map (Value c ctxKey))) s"
    using ToContext_Some[of c f s] by blast
  have "map_of (Data (Extract (WithValue c ctxKey (MapVal (Some f))) (s\<lparr>maps := (maps s)(f := m)\<rparr>)))
          = map_of (Data (Extract c s))"
    using m(2) assms by (simp add: Extract_fields fun_eq_iff)
  then show ?thesis using m(1) by (simp add: Extract_logger)
qed

lemma mapkeys_empty: "mapkeys r s = [] \<Longrightarrow> mapaccess r s = Map.empty"
  by (cases r) (auto simp: fun_eq_iff)

lemma map_of_no_keys: "map_of xs = Map.empty \<Longrightarrow> xs = []"
proof (cases xs)
  case (Cons x ys)
  assume "map_of xs = Map.empty"
  then have "map_of xs (fst x) = None" by simp
  with Cons show ?thesis by (cases x) simp
qed simp

lemma ToContext_logger: "logger (snd (ToContext c flds s)) = logger s"
proof (cases flds)
  case None
  then show ?thesis by (simp add: ToContext_state_nil)
next
  case (Some f)
  with ToContext_Some[of c f s] show ?thesis by auto
qed

lemma ToContext_nil_ok:
  assumes "mapkeys (fst (assert_map (Value c ctxKey))) s = []"
  shows "ToContext c None s = (Inr (WithValue c ctxKey (MapVal None)), s)"
  using assms by (cases "Value c ctxKey") (auto simp: ToContext_def)

lemma Extract_empty_keys:
  assumes "Data (Extract c s) = []"
  shows "mapkeys (fst (assert_map (Value c ctxKey))) s = []"
proof -
  have e: "mapaccess (fst (assert_map (Value c ctxKey))) s = Map.empty"
    using Extract_fields[of c s] assms by simp
  show ?thesis
  proof (cases "fst (assert_map (Value c ctxKey))")
    case None
    then show ?thesis by simp
  next
    case (Some p)
    with e have "map_of (maps s p) = Map.empty" by (simp add: fun_eq_iff)
    then have "maps s p = []" by (rule map_of_no_keys)
    with Some show ?thesis by simp
  qed
qed

section \<open>The builder's map\<close>

lemma init_Some: "ctx (builders s cb) = Some m \<Longrightarrow> init cb s = s"
  by (simp add: init_def)

lemma ctx_update: "(b::logCtxBuilder)\<lparr>ctx := x\<rparr> = \<lparr>ctx = x\<rparr>"
  by (cases b) simp

lemma init_None:
  "ctx (builders s cb) = None \<Longrightarrow>
   init cb s = s\<lparr>maps := (maps s)(next_map s := []), next_map := Suc (next_map s),
                 builders := (builders s)(cb := \<lparr>ctx = Some (next_map s)\<rparr>)\<rparr>"
  by (simp add: init_def makemap_def ctx_update)

lemma init_fields: "\<exists>m. ctx (builders (init cb s) cb) = Some m \<and>
     mapaccess (Some m) (init cb s) = mapaccess (ctx (builders s cb)) s"
proof (cases "ctx (builders s cb)")
  case None
  then show ?thesis by (simp add: init_None fun_eq_iff)
next
  case (Some m)
  then show ?thesis by (simp add: init_Some)
qed

lemma WithField_Some:
  assumes "ctx (builders s cb) = Some m"
  shows "WithField cb field val s =
           (Inr cb, s\<lparr>maps := (maps s)(m := AList.update field val (maps s m))\<rparr>)"
  using assms by (simp add: WithField_def init_Some)

lemma Build_Some: "ctx (builders s cb) = Some m \<Longrightarrow> Build cb s = (Some m, s)"
  by (simp add: Build_def init_Some)

section \<open>The concrete store, evaluated\<close>

lemma demo_attach:
  "ToContext Background (Some 0) demo_state = (Inr demo_parent, demo_state)"
  "ToContext demo_parent (Some 1) demo_state = (Inr demo_child, demo_merged)"
  by (simp_all add: ToContext_def demo_state_def demo_parent_def demo_child_def demo_merged_def)

lemma demo_logger: "logger demo_state = logrus_New"
  by (simp add: demo_state_def)

section \<open>Attaching twice and extracting\<close>

text \<open>
  Claim C1, as the code has it. Let the root carry nothing under \<^verbatim>\<open>ctxKey\<close>, and let \<open>A\<close> and
  \<open>B\<close> be maps, where \<open>B\<close> is not the nil map unless \<open>A\<close> has no entries. Attaching \<open>A\<close> to the root
  and then \<open>B\<close> to the result succeeds, and extracting from the last context gives an entry on
  the package logger whose fields are \<open>B\<close> overlaid with \<open>A\<close>: every key of \<open>A\<close> appears with the
  value from \<open>A\<close> (also when \<open>B\<close> has the key: the parent's value takes precedence), and every
  other key appears exactly as in \<open>B\<close>. Here \<open>A\<close> and \<open>B\<close> are read in the store before the calls.
\<close>

theorem attach_attach_extract_parent_precedence:
  assumes "Value root ctxKey = NilValue"
    and "B = None \<Longrightarrow> mapkeys A s = []"
  shows "\<exists>c1 c2 s2.
           ToContext root A s = (Inr c1, s) \<and>
           ToContext c1 B s = (Inr c2, s2) \<and>
           Logger (Extract c2 s2) = logger s \<and>
           map_of (Data (Extract c2 s2)) = mapaccess B s ++ mapaccess A s \<and>
           (\<forall>k v. mapaccess A s k = Some v \<longrightarrow> map_of (Data (Extract c2 s2)) k = Some v) \<and>
           (\<forall>k. mapaccess A s k = None \<longrightarrow>
                  map_of (Data (Extract c2 s2)) k = mapaccess B s k)"
proof -
  let ?c1 = "WithValue root ctxKey (MapVal A)"
  let ?c2 = "WithValue ?c1 ctxKey (MapVal B)"
  have 1: "ToContext root A s = (Inr ?c1, s)"
    using assms(1) by (simp add: ToContext_no_parent_map)
  obtain s2 where s2: "ToContext ?c1 B s = (Inr ?c2, s2)"
    "map_of (Data (Extract ?c2 s2)) = mapaccess B s ++ mapaccess A s"
  proof (cases B)
    case None
    then have "mapkeys A s = []" by (rule assms(2))
    then have "ToContext ?c1 None s = (Inr (WithValue ?c1 ctxKey (MapVal None)), s)"
      "mapaccess A s = Map.empty"
      by (simp_all add: ToContext_nil_ok mapkeys_empty)
    with None that[of s] show ?thesis
      by (simp add: Extract_fields mapaccess_nil)
  next
    case (Some b)
    obtain m where m: "ToContext ?c1 (Some b) s = (Inr (WithValue ?c1 ctxKey (MapVal (Some b))), s\<lparr>maps := (maps s)(b := m)\<rparr>)"
      "map_of m = map_of (maps s b) ++ mapaccess A s"
      using ToContext_Some[of ?c1 b s] by auto
    have "map_of (Data (Extract (WithValue ?c1 ctxKey (MapVal (Some b))) (s\<lparr>maps := (maps s)(b := m)\<rparr>)))
        = mapaccess (Some b) s ++ mapaccess A s"
      using m(2) by (auto simp: Extract_fields fun_eq_iff map_add_def split: option.splits)
    with Some m(1) that show ?thesis by simp
  qed
  have "Logger (Extract ?c2 s2) = logger s"
    using s2(1) ToContext_logger[of ?c1 B s] by (simp add: Extract_logger)
  moreover have "\<forall>k v. mapaccess A s k = Some v \<longrightarrow> map_of (Data (Extract ?c2 s2)) k = Some v"
    by (simp add: s2(2))
  moreover have "\<forall>k. mapaccess A s k = None \<longrightarrow>
                  map_of (Data (Extract ?c2 s2)) k = mapaccess B s k"
    by (simp add: s2(2) map_add_def)
  ultimately show ?thesis using 1 s2 by blast
qed

theorem attach_attach_extract_parent_precedence_witness:
  "Value Background ctxKey = NilValue \<and>
   Logger (Extract demo_child demo_merged) = logger demo_state \<and>
   map_of (Data (Extract demo_child demo_merged)) =
     mapaccess (Some 1) demo_state ++ mapaccess (Some 0) demo_state \<and>
   mapaccess (Some 0) demo_state ''region'' = Some (Str ''eu'') \<and>
   map_of (Data (Extract demo_child demo_merged)) ''region'' = Some (Str ''eu'')"
proof -
  have r: "mapaccess (Some 0) demo_state ''region'' = Some (Str ''eu'')"
    by (simp add: demo_state_def)
  show ?thesis
    using attach_attach_extract_parent_precedence[where root = Background and A = "Some 0" and B = "Some 1"
        and s = demo_state]
      demo_attach r by auto
qed

text \<open>
  The claim as written gives precedence to the child. On the store \<^const>\<open>demo_state\<close>,
  attaching \<^verbatim>\<open>{correlation-id: "xyz", region: "eu"}\<close> to the root and then
  \<^verbatim>\<open>{correlation-id: "abc"}\<close> to the result, the extracted entry has
  \<^verbatim>\<open>correlation-id: "xyz"\<close>, the parent's value, although the child's map had \<^verbatim>\<open>"abc"\<close>.
\<close>

theorem attach_attach_extract_child_precedence_fails:
  "ToContext Background (Some 0) demo_state = (Inr demo_parent, demo_state) \<and>
   ToContext demo_parent (Some 1) demo_state = (Inr demo_child, demo_merged) \<and>
   mapaccess (Some 1) demo_state ''correlation-id'' = Some (Str ''abc'') \<and>
   map_of (Data (Extract demo_child demo_merged)) ''correlation-id'' = Some (Str ''xyz'')"
  using demo_attach
  by (simp add: Extract_def WithFields_def demo_state_def demo_child_def demo_merged_def)



section \<open>The parent's field set\<close>

text \<open>
  Claim C2. For every context, every map passed as \<^verbatim>\<open>fields\<close> (nil, or the parent's own map
  object, included) and every store, the entry extracted from the parent context after the
  call to \<^verbatim>\<open>ToContext\<close> is the entry extracted before it, and the map object the parent
  context stores has the contents it had; this holds also when the call panics.
\<close>

theorem ToContext_keeps_parent_fields:
  "Extract c (snd (ToContext c flds s)) = Extract c s \<and>
   (\<forall>p. Value c ctxKey = MapVal (Some p) \<longrightarrow> maps (snd (ToContext c flds s)) p = maps s p)"
  by (simp add: ToContext_parent_unchanged ToContext_parent_map)

theorem ToContext_keeps_parent_fields_witness:
  "Extract demo_parent (snd (ToContext demo_parent (Some 1) demo_state)) =
     \<lparr>Logger = logrus_New, Data = [(''correlation-id'', Str ''xyz''), (''region'', Str ''eu'')]\<rparr> \<and>
   Extract demo_parent demo_state =
     \<lparr>Logger = logrus_New, Data = [(''correlation-id'', Str ''xyz''), (''region'', Str ''eu'')]\<rparr> \<and>
   Value demo_parent ctxKey = MapVal (Some 0) \<and>
   maps (snd (ToContext demo_parent (Some 1) demo_state)) 0 = maps demo_state 0"
  using ToContext_keeps_parent_fields[of demo_parent "Some 1" demo_state]
  by (simp add: Extract_def WithFields_def demo_parent_def demo_state_def)

section \<open>The map passed to \<^verbatim>\<open>ToContext\<close>\<close>




section \<open>Extracting where nothing is attached\<close>

text \<open>
  Claim C4. For every context with no value under \<^verbatim>\<open>ctxKey\<close> and every store, \<^verbatim>\<open>Extract\<close>
  returns an entry: it is bound to the package logger and has no fields. \<^const>\<open>Extract\<close> is a
  total function into entries, with no panic and no nil result among its values.
\<close>

theorem Extract_without_attachment:
  "Value c ctxKey = NilValue \<Longrightarrow> Extract c s = \<lparr>Logger = logger s, Data = []\<rparr>"
  by (simp add: Extract_def NewEntry_def)

theorem Extract_without_attachment_witness:
  "Value (WithValue Background (otherKey 3) (Str ''x'')) ctxKey = NilValue \<and>
   Extract (WithValue Background (otherKey 3) (Str ''x'')) demo_state = \<lparr>Logger = logrus_New, Data = []\<rparr> \<and>
   Extract Background demo_state = \<lparr>Logger = logrus_New, Data = []\<rparr>"
  using Extract_without_attachment[of "WithValue Background (otherKey 3) (Str ''x'')" demo_state]
    Extract_without_attachment[of Background demo_state] demo_logger
  by simp

text \<open>
  Claim C10. For every context whose value under \<^verbatim>\<open>ctxKey\<close> is the typed nil map, or is not of
  the map type, \<^verbatim>\<open>Extract\<close> returns what it returns for the empty root context: the entry on
  the package logger with no fields.
\<close>

theorem Extract_nil_or_non_map:
  "Value c ctxKey = MapVal None \<or> (\<forall>m. Value c ctxKey \<noteq> MapVal m) \<Longrightarrow>
   Extract c s = Extract Background s \<and> Extract c s = \<lparr>Logger = logger s, Data = []\<rparr>"
  by (cases "Value c ctxKey") (auto simp: Extract_def NewEntry_def)

theorem Extract_nil_or_non_map_witness:
  "Value (WithValue Background ctxKey (MapVal None)) ctxKey = MapVal None \<and>
   Extract (WithValue Background ctxKey (MapVal None)) demo_state = Extract Background demo_state \<and>
   Extract (WithValue Background ctxKey (MapVal None)) demo_state = \<lparr>Logger = logrus_New, Data = []\<rparr> \<and>
   (\<forall>m. Value (WithValue demo_parent ctxKey (Other 7)) ctxKey \<noteq> MapVal m) \<and>
   Extract (WithValue demo_parent ctxKey (Other 7)) demo_state = \<lparr>Logger = logrus_New, Data = []\<rparr>"
  using Extract_nil_or_non_map[of "WithValue Background ctxKey (MapVal None)" demo_state]
    Extract_nil_or_non_map[of "WithValue demo_parent ctxKey (Other 7)" demo_state] demo_logger
  by auto

section \<open>Attaching an empty field set\<close>

text \<open>
  Claim C5, as the code has it. Let \<^verbatim>\<open>fields\<close> be an empty field set: a map with no keys, or the
  nil map; and when it is the nil map, let the entry extracted from the parent context have no
  fields. Then \<^verbatim>\<open>ToContext\<close> succeeds, and the entry extracted from the new context has the
  fields and the logger of the entry extracted from the parent context.
\<close>

theorem attach_empty_identity:
  assumes "mapkeys flds s = []"
    and "flds = None \<Longrightarrow> Data (Extract c s) = []"
  shows "\<exists>c' s'. ToContext c flds s = (Inr c', s') \<and>
                 map_of (Data (Extract c' s')) = map_of (Data (Extract c s)) \<and>
                 Logger (Extract c' s') = Logger (Extract c s)"
proof (cases flds)
  case None
  then have "Data (Extract c s) = []" by (rule assms(2))
  then have "ToContext c None s = (Inr (WithValue c ctxKey (MapVal None)), s)"
    "map_of (Data (Extract c s)) = Map.empty"
    by (simp_all add: ToContext_nil_ok Extract_empty_keys)
  with None show ?thesis
    by (simp add: Extract_fields Extract_logger mapaccess_nil)
next
  case (Some f)
  with assms(1) have "maps s f = []" by simp
  with Some show ?thesis by (simp add: ToContext_empty_map_identity)
qed

theorem attach_empty_identity_witness:
  "makemap demo_state = (2, snd (makemap demo_state)) \<and>
   mapkeys (Some 2) (snd (makemap demo_state)) = [] \<and>
   Some 2 \<noteq> (None :: nat option) \<and>
   (\<exists>c' s'. ToContext demo_parent (Some 2) (snd (makemap demo_state)) = (Inr c', s') \<and>
            map_of (Data (Extract c' s')) =
              map_of (Data (Extract demo_parent (snd (makemap demo_state)))) \<and>
            Logger (Extract c' s') = Logger (Extract demo_parent (snd (makemap demo_state)))) \<and>
   mapkeys None demo_state = [] \<and>
   Data (Extract Background demo_state) = [] \<and>
   (\<exists>c' s'. ToContext Background None demo_state = (Inr c', s') \<and>
            map_of (Data (Extract c' s')) = map_of (Data (Extract Background demo_state)) \<and>
            Logger (Extract c' s') = Logger (Extract Background demo_state))"
proof -
  have 0: "makemap demo_state = (2, snd (makemap demo_state))"
    by (simp add: makemap_def demo_state_def)
  have 1: "mapkeys (Some 2) (snd (makemap demo_state)) = []"
    by (simp add: makemap_def demo_state_def)
  have 2: "Data (Extract Background demo_state) = []"
    by (simp add: Extract_def NewEntry_def)
  show ?thesis
    using attach_empty_identity[of "Some 2" "snd (makemap demo_state)" demo_parent]
      attach_empty_identity[of None demo_state Background] 0 1 2
    by simp
qed

text \<open>
  The claim as written holds for every context and every empty field set. The nil map is an
  empty field set of type \<^verbatim>\<open>map[string]interface{}\<close>: on the context that carries
  \<^verbatim>\<open>{correlation-id: "xyz", region: "eu"}\<close>, \<^verbatim>\<open>ToContext\<close> with the nil map panics at the first
  write of its loop (assignment to an entry in a nil map), and returns no context.
\<close>

theorem ToContext_nil_fields_panics:
  "mapaccess (Some 0) demo_state ''region'' = Some (Str ''eu'') \<and>
   mapkeys None demo_state = [] \<and>
   ToContext demo_parent None demo_state = (Inl AssignNilMap, demo_state)"
  by (simp add: ToContext_def demo_parent_def demo_state_def)

section \<open>Configuring the logger\<close>

text \<open>
  Claim C6. When the library's parser rejects the level string, \<^verbatim>\<open>newLogger\<close> with format
  \<^verbatim>\<open>"json"\<close> yields the logger with the info level and the JSON formatter, and \<^verbatim>\<open>InitLogger\<close>
  installs it as the package logger; no error is possible. For every format string other than
  \<^verbatim>\<open>"json"\<close>, whatever the level string, the text formatter (with full timestamps) is
  selected.
\<close>

theorem newLogger_fallbacks:
  assumes "ParseLevel lvl = None"
  shows "newLogger ParseLevel \<lparr>Level = lvl, Format = ''json''\<rparr> =
           \<lparr>LoggerLevel = InfoLevel, Formatter = JSONFormatter\<rparr> \<and>
         logger (InitLogger ParseLevel lvl ''json'' s) =
           \<lparr>LoggerLevel = InfoLevel, Formatter = JSONFormatter\<rparr> \<and>
         (\<forall>format l. format \<noteq> ''json'' \<longrightarrow>
            Formatter (newLogger ParseLevel \<lparr>Level = l, Format = format\<rparr>) = TextFormatter True \<and>
            Formatter (logger (InitLogger ParseLevel l format s)) = TextFormatter True)"
  using assms by (simp add: newLogger_def InitLogger_def logrus_New_def Let_def)

theorem newLogger_fallbacks_witness:
  "level_names ''bogus-level'' = None \<and>
   logger (InitLogger level_names ''bogus-level'' ''json'' demo_state) =
           \<lparr>LoggerLevel = InfoLevel, Formatter = JSONFormatter\<rparr> \<and>
   ''yaml'' \<noteq> ''json'' \<and>
   Formatter (logger (InitLogger level_names ''debug'' ''yaml'' demo_state)) = TextFormatter True"
proof -
  have h: "level_names ''bogus-level'' = None" by (simp add: level_names_def)
  show ?thesis
    using h newLogger_fallbacks[of level_names "''bogus-level''" demo_state] by simp
qed

section \<open>The builder\<close>

text \<open>
  Claim C7. From any store, \<^verbatim>\<open>NewLogCtxBuilder()\<close> followed by
  \<^verbatim>\<open>WithProvider("aws").WithService("pke").WithRegion("eu-west-1")\<close> and \<^verbatim>\<open>Build()\<close> runs without
  a panic, every setter returns the builder it was called on, and the map \<^verbatim>\<open>Build\<close> returns
  holds exactly \<^verbatim>\<open>provider: "aws"\<close>, \<^verbatim>\<open>service: "pke"\<close> and \<^verbatim>\<open>region: "eu-west-1"\<close>.
\<close>

theorem builder_chain_Build:
  "\<exists>cb s0 s1 s2 s3 m.
     NewLogCtxBuilder s = (cb, s0) \<and>
     WithProvider cb ''aws'' s0 = (Inr cb, s1) \<and>
     WithService cb ''pke'' s1 = (Inr cb, s2) \<and>
     WithRegion cb ''eu-west-1'' s2 = (Inr cb, s3) \<and>
     Build cb s3 = (Some m, s3) \<and>
     maps s3 m = [(''provider'', Str ''aws''), (''service'', Str ''pke''), (''region'', Str ''eu-west-1'')] \<and>
     mapaccess (Some m) s3 =
       [''provider'' \<mapsto> Str ''aws'', ''service'' \<mapsto> Str ''pke'', ''region'' \<mapsto> Str ''eu-west-1'']"
proof -
  let ?cb = "next_builder s"
  let ?m = "next_map s"
  let ?s0 = "snd (NewLogCtxBuilder s)"
  have 0: "NewLogCtxBuilder s = (?cb, ?s0)"
    by (simp add: NewLogCtxBuilder_def Let_def)
  have c0: "ctx (builders ?s0 ?cb) = Some ?m" and m0: "maps ?s0 ?m = []"
    by (simp_all add: NewLogCtxBuilder_def Let_def init_None)
  let ?s1 = "?s0\<lparr>maps := (maps ?s0)(?m := [(''provider'', Str ''aws'')])\<rparr>"
  have 1: "WithProvider ?cb ''aws'' ?s0 = (Inr ?cb, ?s1)"
    using c0 m0 by (simp add: WithProvider_def providerKey_def WithField_Some)
  have c1: "ctx (builders ?s1 ?cb) = Some ?m" and m1: "maps ?s1 ?m = [(''provider'', Str ''aws'')]"
    using c0 by simp_all
  let ?s2 = "?s1\<lparr>maps := (maps ?s1)(?m := [(''provider'', Str ''aws''), (''service'', Str ''pke'')])\<rparr>"
  have 2: "WithService ?cb ''pke'' ?s1 = (Inr ?cb, ?s2)"
    using WithField_Some[OF c1, of serviceKey "Str ''pke''"] m1
    by (simp add: WithService_def serviceKey_def)
  have c2: "ctx (builders ?s2 ?cb) = Some ?m"
    and m2: "maps ?s2 ?m = [(''provider'', Str ''aws''), (''service'', Str ''pke'')]"
    using c0 by simp_all
  let ?s3 = "?s2\<lparr>maps := (maps ?s2)(?m := [(''provider'', Str ''aws''), (''service'', Str ''pke''), (''region'', Str ''eu-west-1'')])\<rparr>"
  have 3: "WithRegion ?cb ''eu-west-1'' ?s2 = (Inr ?cb, ?s3)"
    using WithField_Some[OF c2, of regionKey "Str ''eu-west-1''"] m2
    by (simp add: WithRegion_def regionKey_def)
  have c3: "ctx (builders ?s3 ?cb) = Some ?m"
    and m3: "maps ?s3 ?m = [(''provider'', Str ''aws''), (''service'', Str ''pke''), (''region'', Str ''eu-west-1'')]"
    using c0 by simp_all
  have 4: "Build ?cb ?s3 = (Some ?m, ?s3)"
    using c3 by (rule Build_Some)
  have 5: "mapaccess (Some ?m) ?s3 =
       [''provider'' \<mapsto> Str ''aws'', ''service'' \<mapsto> Str ''pke'', ''region'' \<mapsto> Str ''eu-west-1'']"
    by (auto simp: fun_eq_iff)
  show ?thesis using 0 1 2 3 4 m3 5 by blast
qed

theorem builder_chain_Build_witness:
  "\<exists>cb s0 s1 s2 s3 m.
     NewLogCtxBuilder demo_state = (cb, s0) \<and>
     WithProvider cb ''aws'' s0 = (Inr cb, s1) \<and>
     WithService cb ''pke'' s1 = (Inr cb, s2) \<and>
     WithRegion cb ''eu-west-1'' s2 = (Inr cb, s3) \<and>
     Build cb s3 = (Some m, s3) \<and>
     maps s3 m = [(''provider'', Str ''aws''), (''service'', Str ''pke''), (''region'', Str ''eu-west-1'')]"
  using builder_chain_Build[of demo_state] by blast

text \<open>
  Claim C8. For every builder and store, \<^verbatim>\<open>Build()\<close> returns a non-nil map holding the fields
  the builder has accumulated; a second \<^verbatim>\<open>Build()\<close> returns the same map and leaves the store
  as it is; and after any \<^verbatim>\<open>WithField(field, val)\<close>, which returns the same builder, \<^verbatim>\<open>Build()\<close>
  returns that same map again, now holding the earlier fields with \<open>field\<close> set to \<open>val\<close>.
\<close>

theorem Build_repeatable:
  "\<exists>m s1. Build cb s = (Some m, s1) \<and>
          mapaccess (Some m) s1 = mapaccess (ctx (builders s cb)) s \<and>
          Build cb s1 = (Some m, s1) \<and>
          (\<forall>field val. \<exists>s2. WithField cb field val s1 = (Inr cb, s2) \<and>
              Build cb s2 = (Some m, s2) \<and>
              mapaccess (Some m) s2 = (mapaccess (Some m) s1)(field \<mapsto> val))"
proof -
  obtain m where m: "ctx (builders (init cb s) cb) = Some m"
    "mapaccess (Some m) (init cb s) = mapaccess (ctx (builders s cb)) s"
    using init_fields by blast
  let ?s1 = "init cb s"
  have 1: "Build cb s = (Some m, ?s1)"
    using m(1) by (simp add: Build_def)
  have 2: "Build cb ?s1 = (Some m, ?s1)"
    using m(1) by (rule Build_Some)
  have 3: "\<exists>s2. WithField cb field val ?s1 = (Inr cb, s2) \<and>
              Build cb s2 = (Some m, s2) \<and>
              mapaccess (Some m) s2 = (mapaccess (Some m) ?s1)(field \<mapsto> val)" for field val
  proof -
    let ?s2 = "?s1\<lparr>maps := (maps ?s1)(m := AList.update field val (maps ?s1 m))\<rparr>"
    have "WithField cb field val ?s1 = (Inr cb, ?s2)"
      using m(1) by (rule WithField_Some)
    moreover have "Build cb ?s2 = (Some m, ?s2)"
      using m(1) by (intro Build_Some) simp
    moreover have "mapaccess (Some m) ?s2 = (mapaccess (Some m) ?s1)(field \<mapsto> val)"
      by (auto simp: fun_eq_iff update_conv')
    ultimately show ?thesis by blast
  qed
  show ?thesis using 1 2 3 m(2) by blast
qed

theorem Build_repeatable_witness:
  "\<exists>m s1. Build 0 demo_state = (Some m, s1) \<and>
          mapaccess (Some m) s1 = mapaccess (ctx (builders demo_state 0)) demo_state \<and>
          Build 0 s1 = (Some m, s1) \<and>
          (\<forall>field val. \<exists>s2. WithField 0 field val s1 = (Inr 0, s2) \<and>
              Build 0 s2 = (Some m, s2) \<and>
              mapaccess (Some m) s2 = (mapaccess (Some m) s1)(field \<mapsto> val))"
  using Build_repeatable[of 0 demo_state] by simp

text \<open>
  Claim C9. For every builder, value and store, each of the six convenience setters is the
  call of \<^verbatim>\<open>WithField\<close> with the reserved key name and the same value: same result, same
  store. \<^verbatim>\<open>WithField\<close> returns the builder it was called on, whose map then holds the
  earlier fields with the key set to the value.
\<close>

theorem setters_are_WithField:
  "WithProvider cb v s = WithField cb ''provider'' (Str v) s \<and>
   WithService cb v s = WithField cb ''service'' (Str v) s \<and>
   WithRegion cb v s = WithField cb ''region'' (Str v) s \<and>
   WithCorrelationId cb v s = WithField cb ''correlation-id'' (Str v) s \<and>
   WithScrapeIdShort cb x s = WithField cb ''scrape-id-short'' x s \<and>
   WithScrapeIdFull cb x s = WithField cb ''scrape-id-full'' x s \<and>
   (\<exists>m s'. WithField cb field val s = (Inr cb, s') \<and> ctx (builders s' cb) = Some m \<and>
            mapaccess (Some m) s' = (mapaccess (ctx (builders s cb)) s)(field \<mapsto> val))"
proof -
  obtain m where m: "ctx (builders (init cb s) cb) = Some m"
    "mapaccess (Some m) (init cb s) = mapaccess (ctx (builders s cb)) s"
    using init_fields by blast
  have "WithField cb field val s =
          (Inr cb, (init cb s)\<lparr>maps := (maps (init cb s))(m := AList.update field val (maps (init cb s) m))\<rparr>)"
    using m(1) by (simp add: WithField_def Let_def)
  moreover have "mapaccess (Some m) ((init cb s)\<lparr>maps := (maps (init cb s))(m := AList.update field val (maps (init cb s) m))\<rparr>)
      = (mapaccess (ctx (builders s cb)) s)(field \<mapsto> val)"
    using m(2) by (auto simp: fun_eq_iff update_conv')
  ultimately have "\<exists>m s'. WithField cb field val s = (Inr cb, s') \<and> ctx (builders s' cb) = Some m \<and>
            mapaccess (Some m) s' = (mapaccess (ctx (builders s cb)) s)(field \<mapsto> val)"
    using m(1) by auto
  then show ?thesis
    by (simp add: WithProvider_def WithService_def WithRegion_def WithCorrelationId_def
        WithScrapeIdShort_def WithScrapeIdFull_def providerKey_def serviceKey_def regionKey_def
        correlationIdKey_def scrapeIdShortKey_def scrapeIdFullKey_def)
qed

theorem setters_are_WithField_witness:
  "WithProvider 0 ''aws'' demo_state = WithField 0 ''provider'' (Str ''aws'') demo_state \<and>
   WithService 0 ''pke'' demo_state = WithField 0 ''service'' (Str ''pke'') demo_state \<and>
   WithRegion 0 ''eu'' demo_state = WithField 0 ''region'' (Str ''eu'') demo_state \<and>
   WithCorrelationId 0 ''abc'' demo_state = WithField 0 ''correlation-id'' (Str ''abc'') demo_state \<and>
   WithScrapeIdShort 0 (Num 7) demo_state = WithField 0 ''scrape-id-short'' (Num 7) demo_state \<and>
   WithScrapeIdFull 0 (Num 7) demo_state = WithField 0 ''scrape-id-full'' (Num 7) demo_state"
  using setters_are_WithField[of 0 "''aws''" demo_state]
    setters_are_WithField[of 0 "''pke''" demo_state]
    setters_are_WithField[of 0 "''eu''" demo_state]
    setters_are_WithField[of 0 "''abc''" demo_state "Num 7"]
  by simp

end
